theory Spec2Isabelle
  imports
    Main
    "HOL-Library.AList"
    "HOL-Library.Char_ord"
    "HOL-Library.List_Lexorder"
    "HOL-Library.Sublist"
begin

section \<open>Strings as the Python 2 source handles them\<close>

text \<open>
  The source is Python 2 (\<^verbatim>\<open>unicode\<close>, \<^verbatim>\<open>print\<close> with \<^verbatim>\<open>%\<close>
  formatting). A text is a list of characters together with its kind: a
  \<^verbatim>\<open>str\<close> is a list of bytes, a \<^verbatim>\<open>unicode\<close> a list of code points, of
  which the type \<open>char\<close> has those below 256. The source never looks at a character
  above 127 other than to compare it with another one or to refuse it in
  \<^verbatim>\<open>str(...)\<close>. The regular-expression class \<^verbatim>\<open>\s\<close> (no UNICODE flag) and
  \<^verbatim>\<open>str.strip\<close> agree on six whitespace characters.
\<close>

abbreviation TAB :: char where "TAB \<equiv> CHR 0x09"
abbreviation NL :: char where "NL \<equiv> CHR 0x0A"
abbreviation BSL :: char where "BSL \<equiv> CHR 0x5C"
abbreviation DQ :: char where "DQ \<equiv> CHR 0x22"

definition is_space :: "char \<Rightarrow> bool" where
  "is_space c = (c = CHR '' '' \<or> c = TAB \<or> c = NL \<or> c = CHR 0x0D \<or> c = CHR 0x0B \<or> c = CHR 0x0C)"

text \<open>\<^verbatim>\<open>s.lstrip()\<close>, also \<^verbatim>\<open>re.sub("^\s*", '', s)\<close> and \<^verbatim>\<open>re.sub("^\s+", '', s)\<close>.\<close>

definition lstrip :: "string \<Rightarrow> string" where
  "lstrip s = dropWhile is_space s"

text \<open>\<^verbatim>\<open>s.rstrip()\<close>, also \<^verbatim>\<open>re.sub("\s*$", '', s)\<close> and \<^verbatim>\<open>re.sub("\s+$", '', s)\<close>.\<close>

definition rstrip :: "string \<Rightarrow> string" where
  "rstrip s = rev (dropWhile is_space (rev s))"

text \<open>\<^verbatim>\<open>re.sub(c, rep, s)\<close> for a pattern that is one literal character.\<close>

definition sub_char :: "char \<Rightarrow> string \<Rightarrow> string \<Rightarrow> string" where
  "sub_char c rep s = concat (map (\<lambda>x. if x = c then rep else [x]) s)"

text \<open>\<^verbatim>\<open>re.sub("\s+", '', s)\<close>: every whitespace character goes.\<close>

definition remove_spaces :: "string \<Rightarrow> string" where
  "remove_spaces s = filter (\<lambda>c. \<not> is_space c) s"

text \<open>
  \<^verbatim>\<open>re.sub(pat, rep, s)\<close> for a literal pattern of several characters: the matches are
  taken from the left and do not overlap.
\<close>

function replace_all :: "string \<Rightarrow> string \<Rightarrow> string \<Rightarrow> string" where
  "replace_all pat rep [] = []"
| "replace_all pat rep (c # cs) =
     (if pat \<noteq> [] \<and> prefix pat (c # cs)
      then rep @ replace_all pat rep (drop (length pat) (c # cs))
      else c # replace_all pat rep cs)"
  by pat_completeness auto
termination
  by (relation "measure (\<lambda>(pat, rep, s). length s)") (auto simp: neq_Nil_conv)

text \<open>
  \<^verbatim>\<open>s.split(sep)\<close> for a non-empty separator: the pieces between the matches of
  \<open>sep\<close>, taken from the left. \<open>cur\<close> holds the piece being read, reversed.
\<close>

function split_aux :: "string \<Rightarrow> string \<Rightarrow> string \<Rightarrow> string list" where
  "split_aux sep cur [] = [rev cur]"
| "split_aux sep cur (c # cs) =
     (if sep \<noteq> [] \<and> prefix sep (c # cs)
      then rev cur # split_aux sep [] (drop (length sep) (c # cs))
      else split_aux sep (c # cur) cs)"
  by pat_completeness auto
termination
  by (relation "measure (\<lambda>(sep, cur, s). length s)") (auto simp: neq_Nil_conv)

definition split :: "string \<Rightarrow> string \<Rightarrow> string list" where
  "split sep s = split_aux sep [] s"

text \<open>\<^verbatim>\<open>s.split(sep, 1)\<close> where \<open>sep\<close> is one character that occurs in \<open>s\<close>.\<close>

definition split1 :: "char \<Rightarrow> string \<Rightarrow> string \<times> string" where
  "split1 c s = (takeWhile (\<lambda>x. x \<noteq> c) s, drop 1 (dropWhile (\<lambda>x. x \<noteq> c) s))"

text \<open>\<^verbatim>\<open>sep.join(xs)\<close>.\<close>

fun join :: "string \<Rightarrow> string list \<Rightarrow> string" where
  "join sep [] = []"
| "join sep [x] = x"
| "join sep (x # y # ys) = x @ sep @ join sep (y # ys)"

text \<open>
  \<^verbatim>\<open>str(x)\<close> on a text: a \<^verbatim>\<open>str\<close> is returned as it is, a \<^verbatim>\<open>unicode\<close>
  is encoded as ASCII, which raises \<^verbatim>\<open>UnicodeEncodeError\<close> (here \<open>None\<close>) at a
  character above 127.
\<close>

datatype kind = Bytes | Unicode

definition is_ascii :: "char \<Rightarrow> bool" where
  "is_ascii c = (of_char c < (128 :: nat))"

definition py_str :: "kind \<Rightarrow> string \<Rightarrow> string option" where
  "py_str kk s = (if kk = Unicode \<and> \<not> list_all is_ascii s then None else Some s)"

section \<open>The aggregator\<close>

text \<open>
  \<^verbatim>\<open>compare_root\<close> is a dict from path labels to nodes
  \<^verbatim>\<open>{'clusters': [...], 'values': {value: [...]}}\<close>; the key \<^verbatim>\<open>'values'\<close> is
  absent until the first value is recorded. Dicts are association lists with distinct
  keys (\<open>map_of\<close> reads, \<open>AList.update\<close> writes); the source only ever iterates them
  in sorted key order. The field \<open>vals\<close> stands for \<^verbatim>\<open>'values'\<close>.
\<close>

record node =
  clusters :: "string list"
  vals :: "(string \<times> string list) list option"

type_synonym agg = "(string \<times> node) list"

datatype error = KeyError | TypeError | ParseError | UnicodeEncodeError | SystemExit

text \<open>
  The dict is mutated in place, so what a raise leaves behind is still there for a
  handler: every outcome carries the aggregator. \<open>OutOfFuel\<close> is the model's own: the
  walker recurses on what the external parsers return.
\<close>

datatype outcome = Done agg | Raised error agg | OutOfFuel agg

fun state_of :: "outcome \<Rightarrow> agg" where
  "state_of (Done a) = a"
| "state_of (Raised e a) = a"
| "state_of (OutOfFuel a) = a"

definition chk_label :: "agg \<Rightarrow> string \<Rightarrow> string \<Rightarrow> agg" where
  "chk_label cmp_root test_label conf_file =
     (let nd = (case map_of cmp_root test_label of
                  None \<Rightarrow> \<lparr>clusters = [], vals = None\<rparr>
                | Some n \<Rightarrow> n);
          cmp_root1 = (case map_of cmp_root test_label of
                  None \<Rightarrow> AList.update test_label nd cmp_root
                | Some n \<Rightarrow> cmp_root)
      in if conf_file \<notin> set (clusters nd)
         then AList.update test_label (nd\<lparr>clusters := clusters nd @ [conf_file]\<rparr>) cmp_root1
         else cmp_root1)"

text \<open>The normalisation of \<^verbatim>\<open>_do_plain_text\<close>: the replacement \<^verbatim>\<open>"\\\\n"\<close> is a backslash and an n.\<close>

definition clean_text :: "string \<Rightarrow> string" where
  "clean_text s = rstrip (lstrip (sub_char NL [BSL, CHR ''n''] (sub_char TAB '' '' s)))"

text \<open>
  \<^verbatim>\<open>_do_plain_text\<close>; the text comes with its kind \<open>kk\<close>. The call of
  \<^verbatim>\<open>str\<close> (line 49) comes before the first look at \<^verbatim>\<open>compare_root[label]\<close>
  (line 55), which raises KeyError when the label has no node; the label \<^verbatim>\<open>None\<close> of
  the top-level call never has one.
\<close>

definition do_plain_text ::
  "string \<Rightarrow> string option \<Rightarrow> agg \<Rightarrow> kind \<Rightarrow> string \<Rightarrow> outcome"
where
  "do_plain_text blueprint label compare_root kk blueprint_branch =
     (if length blueprint_branch < 1 then Done compare_root
      else
        (case py_str kk blueprint_branch of
           None \<Rightarrow> Raised UnicodeEncodeError compare_root
         | Some wrk_blueprint_branch \<Rightarrow>
            (case label of
               None \<Rightarrow> Raised KeyError compare_root
             | Some l \<Rightarrow>
                (case map_of compare_root l of
                   None \<Rightarrow> Raised KeyError compare_root
                 | Some nd \<Rightarrow>
                    (let clean_blueprint_branch = clean_text wrk_blueprint_branch;
                         vs = (case vals nd of None \<Rightarrow> [] | Some v \<Rightarrow> v);
                         srcs = (case map_of vs clean_blueprint_branch of None \<Rightarrow> [] | Some s \<Rightarrow> s);
                         srcs1 = (if blueprint \<notin> set srcs then srcs @ [blueprint] else srcs)
                     in Done (AList.update l
                          (nd\<lparr>vals := Some (AList.update clean_blueprint_branch srcs1 vs)\<rparr>)
                          compare_root))))))"

section \<open>Documents and the external parsers\<close>

text \<open>
  What \<^verbatim>\<open>_do_branch\<close> can be handed: an \<^verbatim>\<open>OrderedDict\<close> (parsed XML), a
  \<^verbatim>\<open>dict\<close>, a \<^verbatim>\<open>list\<close>, a \<^verbatim>\<open>str\<close>, a \<^verbatim>\<open>unicode\<close>, an
  \<^verbatim>\<open>int\<close> (a \<^verbatim>\<open>bool\<close> is one), a \<^verbatim>\<open>float\<close> (given by the text
  \<^verbatim>\<open>str\<close> prints for it), \<^verbatim>\<open>None\<close>, or a value of any other type. A dict is an
  association list with distinct keys, all of one kind: \<^verbatim>\<open>json.loads\<close> and
  \<^verbatim>\<open>xmltodict.parse\<close> give \<^verbatim>\<open>unicode\<close> keys, \<^verbatim>\<open>_do_file\<close> builds dicts
  of one key.
\<close>

datatype doc =
    ODict kind "(string \<times> doc) list"
  | Dict kind "(string \<times> doc) list"
  | DList "doc list"
  | Str string
  | Uni string
  | IntV int
  | FloatV string
  | NoneV
  | Other

text \<open>
  \<^verbatim>\<open>xmltodict.parse\<close> and \<^verbatim>\<open>json.loads\<close> are libraries outside the repository:
  they are parameters, given the kind of the text and the text, \<open>None\<close> where the
  library raises.
\<close>

record parsers =
  xmltodict_parse :: "kind \<Rightarrow> string \<Rightarrow> doc option"
  json_loads :: "kind \<Rightarrow> string \<Rightarrow> doc option"

text \<open>A text of the given kind as a document.\<close>

definition mk_text :: "kind \<Rightarrow> string \<Rightarrow> doc" where
  "mk_text kk s = (case kk of Bytes \<Rightarrow> Str s | Unicode \<Rightarrow> Uni s)"

section \<open>The freeform text parser: \<^verbatim>\<open>_do_file\<close>\<close>

text \<open>\<^verbatim>\<open>re.match("^\s*#", line)\<close>.\<close>

definition is_comment :: "string \<Rightarrow> bool" where
  "is_comment line = (case lstrip line of [] \<Rightarrow> False | c # cs \<Rightarrow> c = CHR ''#'')"

text \<open>
  \<^verbatim>\<open>re.search("\\\\\s*$", line)\<close>: a backslash with nothing but whitespace after it.
  The substitution of the same pattern by \<^verbatim>\<open>''\<close> removes that backslash and the
  whitespace.
\<close>

definition is_continued :: "string \<Rightarrow> bool" where
  "is_continued line = (case rev (rstrip line) of [] \<Rightarrow> False | c # cs \<Rightarrow> c = BSL)"

definition strip_continuation :: "string \<Rightarrow> string" where
  "strip_continuation line = (if is_continued line then butlast (rstrip line) else line)"

text \<open>
  \<^verbatim>\<open>re.sub("^\s*export\s*", '', line, flags=re.IGNORECASE)\<close>; the pattern is given as
  pairs of a letter in lower and in upper case.
\<close>

fun ci_prefix :: "(char \<times> char) list \<Rightarrow> string \<Rightarrow> bool" where
  "ci_prefix [] s = True"
| "ci_prefix (p # ps) [] = False"
| "ci_prefix (p # ps) (c # cs) = ((c = fst p \<or> c = snd p) \<and> ci_prefix ps cs)"

definition strip_export :: "string \<Rightarrow> string" where
  "strip_export line =
     (let t = lstrip line in
      if ci_prefix [(CHR ''e'', CHR ''E''), (CHR ''x'', CHR ''X''), (CHR ''p'', CHR ''P''),
                    (CHR ''o'', CHR ''O''), (CHR ''r'', CHR ''R''), (CHR ''t'', CHR ''T'')] t
      then lstrip (drop 6 t) else line)"

text \<open>
  Leading and trailing whitespace off, then every tab out: what the source does to
  \<^verbatim>\<open>dkey\<close>, \<^verbatim>\<open>dval\<close> and to every key \<^verbatim>\<open>clean_k\<close>.
\<close>

definition clean_key :: "string \<Rightarrow> string" where
  "clean_key k = sub_char TAB [] (rstrip (lstrip k))"

text \<open>
  One line of the loop of \<^verbatim>\<open>_do_file\<close> that is neither a comment nor continued and
  comes with an empty \<^verbatim>\<open>part_of_list\<close>: the document it hands to the walker, if any.
  The strings it builds are \<^verbatim>\<open>str\<close> or \<^verbatim>\<open>unicode\<close> as the text was (\<open>kk\<close>):
  \<^verbatim>\<open>re.sub\<close> and \<^verbatim>\<open>split\<close> keep the kind.
\<close>

definition plain_line :: "kind \<Rightarrow> string \<Rightarrow> doc option" where
  "plain_line kk line0 =
     (let line = lstrip line0 in
      if length line > 0 then
        (let line = strip_export line;
             test_line = replace_all ''=='' ''equalsequals'' line
         in if CHR ''='' \<in> set test_line then
              (let dkey = fst (split1 (CHR ''='') test_line);
                   dval = snd (split1 (CHR ''='') test_line);
                   dkey = replace_all ''equalsequals'' ''=='' dkey;
                   dval = replace_all ''equalsequals'' ''=='' dval;
                   dkey = clean_key dkey;
                   dval = clean_key dval
               in Some (Dict kk [(dkey, mk_text kk dval)]))
            else Some (mk_text kk line))
      else None)"

text \<open>
  The loop over the lines, with its two variables \<^verbatim>\<open>part_of_list\<close> and
  \<^verbatim>\<open>compare_root\<close>. \<open>walk\<close> is \<^verbatim>\<open>self._do_branch\<close> for this blueprint. A line
  that ends a run of continued lines triggers the comma split of the run and is not itself
  looked at.
\<close>

fun do_file_lines ::
  "(string option \<Rightarrow> agg \<Rightarrow> doc \<Rightarrow> outcome) \<Rightarrow> kind \<Rightarrow> string option \<Rightarrow> string list \<Rightarrow>
     string \<Rightarrow> agg \<Rightarrow> outcome"
where
  "do_file_lines walk kk label [] part_of_list compare_root = Done compare_root"
| "do_file_lines walk kk label (line # lines) part_of_list compare_root =
     (if is_comment line then do_file_lines walk kk label lines part_of_list compare_root
      else if is_continued line then
        do_file_lines walk kk label lines (part_of_list @ '' '' @ strip_continuation line)
          compare_root
      else if length part_of_list > 0 then
        (let part_of_list1 = sub_char TAB [] part_of_list;
             element_array = split '','' (remove_spaces part_of_list1)
         in case walk label compare_root (DList (map (mk_text kk) element_array)) of
              Done a \<Rightarrow> do_file_lines walk kk label lines [] a
            | r \<Rightarrow> r)
      else
        (case plain_line kk line of
           None \<Rightarrow> do_file_lines walk kk label lines part_of_list compare_root
         | Some d \<Rightarrow>
            (case walk label compare_root d of
               Done a \<Rightarrow> do_file_lines walk kk label lines part_of_list a
             | r \<Rightarrow> r)))"

text \<open>The pattern \<^verbatim>\<open>'\\\\\\n'\<close> is a backslash followed by a newline.\<close>

definition do_file ::
  "(string option \<Rightarrow> agg \<Rightarrow> doc \<Rightarrow> outcome) \<Rightarrow> string option \<Rightarrow> agg \<Rightarrow> kind \<Rightarrow> string \<Rightarrow>
     outcome"
where
  "do_file walk label compare_root kk blueprint_branch =
     (let wrk_blueprint_branch = replace_all [BSL, NL] [NL] blueprint_branch;
          lines = split [NL] wrk_blueprint_branch
      in do_file_lines walk kk label lines [] compare_root)"

section \<open>The tree walker: \<^verbatim>\<open>_do_branch\<close>\<close>

text \<open>\<^verbatim>\<open>new_label += ' : %s' % seg\<close>, or \<^verbatim>\<open>new_label = seg\<close> when the label is \<^verbatim>\<open>None\<close>.\<close>

definition ext_label :: "string option \<Rightarrow> string \<Rightarrow> string" where
  "ext_label label seg = (case label of None \<Rightarrow> seg | Some l \<Rightarrow> l @ '' : '' @ seg)"

text \<open>A \<^verbatim>\<open>for\<close> loop whose body may raise: the raise ends the loop.\<close>

fun for_each :: "('x \<Rightarrow> agg \<Rightarrow> outcome) \<Rightarrow> 'x list \<Rightarrow> agg \<Rightarrow> outcome" where
  "for_each body [] a = Done a"
| "for_each body (x # xs) a =
     (case body x a of Done a1 \<Rightarrow> for_each body xs a1 | r \<Rightarrow> r)"

text \<open>\<^verbatim>\<open>\w\<close> without the UNICODE flag.\<close>

definition is_word :: "char \<Rightarrow> bool" where
  "is_word c =
     ((CHR ''a'' \<le> c \<and> c \<le> CHR ''z'') \<or> (CHR ''A'' \<le> c \<and> c \<le> CHR ''Z'') \<or>
      (CHR ''0'' \<le> c \<and> c \<le> CHR ''9'') \<or> c = CHR ''_'')"

text \<open>
  \<^verbatim>\<open>re.match("\s*<\w+>", s) or re.match("\s*<\?xml version", s) or re.match("\s*<!--", s)\<close>.
\<close>

definition xml_like :: "string \<Rightarrow> bool" where
  "xml_like s =
     (let t = lstrip s in
      (case t of
         [] \<Rightarrow> False
       | c # r \<Rightarrow> c = CHR ''<'' \<and> takeWhile is_word r \<noteq> [] \<and> prefix ''>'' (dropWhile is_word r))
      \<or> prefix ''<?xml version'' t \<or> prefix ''<!--'' t)"

text \<open>
  The first loop over an \<^verbatim>\<open>OrderedDict\<close>: the keys whose value is \<^verbatim>\<open>unicode\<close>,
  in sorted order, joined into one label and one value. The loop writes nothing but its
  local variables, so a key that \<^verbatim>\<open>str\<close> refuses ends it with the aggregator as it
  was, whichever key it is: \<open>attr_keys_ok\<close> says there is none, and \<open>attr_step\<close> is
  the step of the loop on a key that \<^verbatim>\<open>str\<close> accepts.
\<close>

definition is_unicode :: "doc \<Rightarrow> bool" where
  "is_unicode d = (case d of Uni u \<Rightarrow> True | _ \<Rightarrow> False)"

definition attr_keys_ok :: "kind \<Rightarrow> (string \<times> doc) list \<Rightarrow> bool" where
  "attr_keys_ok kk kvs =
     list_all (\<lambda>kv. py_str kk (fst kv) \<noteq> None) (filter (\<lambda>kv. is_unicode (snd kv)) kvs)"

definition attr_step :: "(string \<times> string) option \<Rightarrow> string \<times> doc \<Rightarrow> (string \<times> string) option" where
  "attr_step acc kv =
     (case snd kv of
        Uni u \<Rightarrow>
          (case acc of
             None \<Rightarrow> Some (clean_key (fst kv), u)
           | Some (attr_label, attr_value) \<Rightarrow>
               Some (attr_label @ '' - '' @ clean_key (fst kv), attr_value @ '' - '' @ u))
      | _ \<Rightarrow> acc)"

text \<open>
  The body shared by the loops over the keys of a dict: \<^verbatim>\<open>str(k)\<close>,
  \<^verbatim>\<open>clean_k\<close>, the new label, \<^verbatim>\<open>_chk_label\<close>, and the walk of the value.
  \<open>walk\<close> is \<^verbatim>\<open>self._do_branch\<close> for this blueprint, \<open>kk\<close> the kind of the keys.
\<close>

definition walk_children ::
  "(string option \<Rightarrow> agg \<Rightarrow> doc \<Rightarrow> outcome) \<Rightarrow> string \<Rightarrow> string option \<Rightarrow> kind \<Rightarrow>
     (string \<times> doc) list \<Rightarrow> agg \<Rightarrow> outcome"
where
  "walk_children walk blueprint label kk kvs compare_root =
     for_each (\<lambda>kv a.
         case py_str kk (fst kv) of
           None \<Rightarrow> Raised UnicodeEncodeError a
         | Some k \<Rightarrow>
             walk (Some (ext_label label (clean_key k)))
               (chk_label a (ext_label label (clean_key k)) blueprint) (snd kv))
       kvs compare_root"

text \<open>
  The branch of \<^verbatim>\<open>_do_branch\<close> for a \<^verbatim>\<open>str\<close> or \<^verbatim>\<open>unicode\<close>:
  XML-like text is parsed, with no handler around the parser; text with a newline is tried
  as JSON, and the bare \<^verbatim>\<open>except:\<close> around \<^verbatim>\<open>json.loads\<close> also encloses the
  recursive call on what it returns and catches whatever that call raises; anything else
  is recorded as it is.
\<close>

definition do_text ::
  "(string option \<Rightarrow> agg \<Rightarrow> doc \<Rightarrow> outcome) \<Rightarrow> parsers \<Rightarrow> string \<Rightarrow> string option \<Rightarrow> agg \<Rightarrow>
     kind \<Rightarrow> string \<Rightarrow> outcome"
where
  "do_text walk ps blueprint label compare_root kk s =
     (if xml_like s then
        (case xmltodict_parse ps kk s of
           None \<Rightarrow> Raised ParseError compare_root
         | Some xml_tree \<Rightarrow> walk label compare_root xml_tree)
      else if NL \<in> set s then
        (let text_config = (\<lambda>a.
               case do_plain_text blueprint label a kk s of
                 Done a1 \<Rightarrow> do_file walk label a1 kk s
               | r \<Rightarrow> r)
         in case json_loads ps kk s of
              None \<Rightarrow> text_config compare_root
            | Some new_blueprint_branch \<Rightarrow>
               (case walk label compare_root new_blueprint_branch of
                  Raised e a \<Rightarrow> text_config a
                | r \<Rightarrow> r))
      else do_plain_text blueprint label compare_root kk s)"

text \<open>
  \<^verbatim>\<open>for k in sorted(d.keys()): ... d[k]\<close> is a loop over the entries sorted by key.
  Every recursive call spends one unit of fuel.
\<close>

fun do_branch :: "parsers \<Rightarrow> nat \<Rightarrow> string \<Rightarrow> string option \<Rightarrow> agg \<Rightarrow> doc \<Rightarrow> outcome" where
  "do_branch ps 0 blueprint label compare_root blueprint_branch = OutOfFuel compare_root"
| "do_branch ps (Suc n) blueprint label compare_root (ODict kk kvs) =
     (if \<not> attr_keys_ok kk kvs then Raised UnicodeEncodeError compare_root
      else
       (case foldl attr_step None (sort_key fst kvs) of
          None \<Rightarrow>
            walk_children (\<lambda>l a d. do_branch ps n blueprint l a d) blueprint label kk
              (filter (\<lambda>kv. \<not> is_unicode (snd kv)) (sort_key fst kvs)) compare_root
        | Some (attr_label, attr_value) \<Rightarrow>
            (case do_branch ps n blueprint (Some (ext_label label attr_label))
                    (chk_label compare_root (ext_label label attr_label) blueprint)
                    (Uni attr_value) of
               Done a1 \<Rightarrow>
                 walk_children (\<lambda>l a d. do_branch ps n blueprint l a d) blueprint
                   (Some (ext_label label attr_label)) kk
                   (filter (\<lambda>kv. \<not> is_unicode (snd kv)) (sort_key fst kvs)) a1
             | r \<Rightarrow> r)))"
| "do_branch ps (Suc n) blueprint label compare_root (Dict kk kvs) =
     walk_children (\<lambda>l a d. do_branch ps n blueprint l a d) blueprint label kk
       (sort_key fst kvs) compare_root"
| "do_branch ps (Suc n) blueprint label compare_root (DList es) =
     for_each (\<lambda>e a.
         do_branch ps n blueprint (Some (ext_label label ''ELEMENT''))
           (chk_label a (ext_label label ''ELEMENT'') blueprint) e)
       es compare_root"
| "do_branch ps (Suc n) blueprint label compare_root (FloatV s) =
     do_plain_text blueprint label compare_root Bytes s"
| "do_branch ps (Suc n) blueprint label compare_root (IntV i) = Raised TypeError compare_root"
| "do_branch ps (Suc n) blueprint label compare_root NoneV = Raised TypeError compare_root"
| "do_branch ps (Suc n) blueprint label compare_root Other = Raised SystemExit compare_root"
| "do_branch ps (Suc n) blueprint label compare_root (Str s) =
     do_text (\<lambda>l a d. do_branch ps n blueprint l a d) ps blueprint label compare_root Bytes s"
| "do_branch ps (Suc n) blueprint label compare_root (Uni s) =
     do_text (\<lambda>l a d. do_branch ps n blueprint l a d) ps blueprint label compare_root Unicode s"

text \<open>
  \<^verbatim>\<open>do_compare\<close>: each configuration is read (\<open>read_file\<close>, a \<^verbatim>\<open>str\<close>) and
  walked from the label \<^verbatim>\<open>None\<close> into the one aggregator; a raise ends the run.
\<close>

definition do_compare :: "parsers \<Rightarrow> nat \<Rightarrow> (string \<Rightarrow> string) \<Rightarrow> string list \<Rightarrow> outcome" where
  "do_compare ps fuel read_file configs =
     for_each (\<lambda>b a. do_branch ps fuel b None a (Str (read_file b))) configs []"

section \<open>The reporter\<close>

text \<open>
  The fields of \<^verbatim>\<open>ConfigCompare\<close> the reporter reads; \<^verbatim>\<open>__init__\<close> sets them,
  \<^verbatim>\<open>_set_args\<close> overwrites the flags and the patterns, nothing assigns
  \<^verbatim>\<open>short_val_length\<close> again. \<^verbatim>\<open>re.search\<close> is the library's and a parameter:
  \<open>re_search pattern text\<close> says whether it finds a match.
\<close>

record config =
  configs :: "string list"
  short_val_length :: nat
  verbose_flag :: bool
  same_flag :: bool
  include_pattern :: "string option"
  exclude_pattern :: "string option"

definition init_config :: "string list \<Rightarrow> config" where
  "init_config cs =
     \<lparr>configs = cs, short_val_length = 40, verbose_flag = False, same_flag = False,
      include_pattern = None, exclude_pattern = None\<rparr>"

text \<open>With \<^verbatim>\<open>-s\<close> and equal lengths the source falls off the end and returns \<^verbatim>\<open>None\<close>, which is false.\<close>

definition skip_line :: "config \<Rightarrow> string list \<Rightarrow> bool" where
  "skip_line self config_details =
     (if same_flag self then
        (if length config_details \<noteq> length (configs self) then True else False)
      else if verbose_flag self then False
      else if length config_details = length (configs self) then True
      else False)"

definition skip_include_test :: "(string \<Rightarrow> string \<Rightarrow> bool) \<Rightarrow> config \<Rightarrow> string \<Rightarrow> bool" where
  "skip_include_test re_search self v =
     (case include_pattern self of
        None \<Rightarrow> False
      | Some p \<Rightarrow> if re_search p v then False else True)"

definition skip_exclude_test :: "(string \<Rightarrow> string \<Rightarrow> bool) \<Rightarrow> config \<Rightarrow> string \<Rightarrow> bool" where
  "skip_exclude_test re_search self v =
     (case exclude_pattern self of
        None \<Rightarrow> False
      | Some p \<Rightarrow> if re_search p v then True else False)"

definition skip_value :: "(string \<Rightarrow> string \<Rightarrow> bool) \<Rightarrow> config \<Rightarrow> string \<Rightarrow> bool" where
  "skip_value re_search self v =
     (let i = skip_include_test re_search self v;
          e = skip_exclude_test re_search self v
      in if i = True \<or> e = True then True else False)"

definition get_spew_line :: "config \<Rightarrow> string list \<Rightarrow> string" where
  "get_spew_line self details =
     foldl (\<lambda>spew_line dc.
         if dc \<in> set details then spew_line @ [TAB] @ '' X '' else spew_line @ [TAB] @ '' - '')
       [] (configs self)"

text \<open>
  \<^verbatim>\<open>_spew_path_differences\<close>: \<open>path_row\<close> is the row it builds once its two
  guards have let the key through. The result is the row written, or \<open>None\<close> when the
  function returns before writing.
\<close>

definition path_row :: "config \<Rightarrow> string \<Rightarrow> string list \<Rightarrow> string" where
  "path_row self key config_details =
     key @ [TAB] @ [DQ, CHR '' '', DQ] @ get_spew_line self config_details"

definition spew_path_differences ::
  "(string \<Rightarrow> string \<Rightarrow> bool) \<Rightarrow> config \<Rightarrow> string \<Rightarrow> string list \<Rightarrow> string option"
where
  "spew_path_differences re_search self key config_details =
     (if skip_line self config_details then None
      else if skip_value re_search self key then None
      else Some (path_row self key config_details))"

text \<open>\<^verbatim>\<open>xs[0:j]\<close>: a negative \<open>j\<close> counts from the end.\<close>

definition slice_to :: "'a list \<Rightarrow> int \<Rightarrow> 'a list" where
  "slice_to xs j = (if j < 0 then take (length xs - nat (- j)) xs else take (nat j) xs)"

text \<open>The loop building \<^verbatim>\<open>short_val\<close> from the rows split at backslash-n.\<close>

definition short_step :: "string \<Rightarrow> string \<Rightarrow> string" where
  "short_step short_val r =
     (if is_comment r \<or> length r < 1 then short_val
      else (let r1 = lstrip r in if short_val = [] then r1 else short_val @ '' '' @ r1))"

text \<open>
  \<^verbatim>\<open>_spew_value_differences\<close>: \<open>value_row\<close> is the row it builds once its two
  guards have let the key through.
\<close>

definition value_row :: "config \<Rightarrow> string \<Rightarrow> string list \<Rightarrow> string" where
  "value_row self key config_details =
     (let line = join '' : '' (butlast (split '' : '' key));
          v = lstrip (last (split '' : '' key));
          line1 =
            (if length v > short_val_length self then
               (let short_val = foldl short_step [] (split [BSL, CHR ''n''] v);
                    cut = slice_to short_val (int (short_val_length self) - 1);
                    line2 = line @ [TAB] @ cut @ '' ... ''
                in if (case lstrip cut of [] \<Rightarrow> False | c # cs \<Rightarrow> c = DQ)
                       \<and> odd (count_list cut DQ)
                   then line2 @ [DQ] else line2)
             else line @ [TAB] @ v);
          line3 = line1 @ get_spew_line self config_details
      in if length v > short_val_length self then line3 @ [TAB] @ v else line3)"

definition spew_value_differences ::
  "(string \<Rightarrow> string \<Rightarrow> bool) \<Rightarrow> config \<Rightarrow> string \<Rightarrow> string list \<Rightarrow> string option"
where
  "spew_value_differences re_search self key config_details =
     (if skip_line self config_details then None
      else if skip_value re_search self key then None
      else Some (value_row self key config_details))"

text \<open>
  \<^verbatim>\<open>_print_differences\<close> on the dict \<^verbatim>\<open>'values'\<close> of a node. A recorded value that
  reads \<^verbatim>\<open>clusters\<close> makes the dict look like a node; otherwise every value, in
  sorted order, gives a row under the key extended by the value. The lists hold source
  names, never dicts, so the branch that exits on a list of dicts is not reached from here.
\<close>

definition option_list :: "'a option \<Rightarrow> 'a list" where
  "option_list x = (case x of None \<Rightarrow> [] | Some y \<Rightarrow> [y])"

definition print_values ::
  "(string \<Rightarrow> string \<Rightarrow> bool) \<Rightarrow> config \<Rightarrow> string \<Rightarrow> (string \<times> string list) list \<Rightarrow> string list"
where
  "print_values re_search self key vs =
     (case map_of vs ''clusters'' of
        Some c \<Rightarrow>
          option_list (spew_path_differences re_search self key c) @
          (case map_of vs ''values'' of
             None \<Rightarrow> []
           | Some l \<Rightarrow> option_list (spew_value_differences re_search self key (sort l)))
      | None \<Rightarrow>
          concat (map (\<lambda>dk. 
              option_list (spew_value_differences re_search self (key @ '' : '' @ fst dk) (sort (snd dk))))
            (sort_key fst vs)))"

text \<open>\<^verbatim>\<open>_print_differences\<close> on a node of the aggregator.\<close>

definition print_differences ::
  "(string \<Rightarrow> string \<Rightarrow> bool) \<Rightarrow> config \<Rightarrow> string \<Rightarrow> node \<Rightarrow> string list"
where
  "print_differences re_search self key config_details =
     option_list (spew_path_differences re_search self key (clusters config_details)) @
     (case vals config_details of
        None \<Rightarrow> []
      | Some vs \<Rightarrow> print_values re_search self key vs)"

definition print_result :: "(string \<Rightarrow> string \<Rightarrow> bool) \<Rightarrow> config \<Rightarrow> agg \<Rightarrow> string list" where
  "print_result re_search self compare_results =
     (''PATH'' @ [TAB] @ ''VALUE'' @ concat (map (\<lambda>b. [TAB] @ b) (configs self))
        @ [TAB] @ ''COMPLETE VALUE IF TRUNCATED'')
     # concat (map (\<lambda>kn. print_differences re_search self (fst kn) (snd kn))
         (sort_key fst compare_results))"

text \<open>
  \<^verbatim>\<open>re.search\<close> for a pattern without metacharacters: the pattern occurs in the text.
\<close>

fun literal_search :: "string \<Rightarrow> string \<Rightarrow> bool" where
  "literal_search pat [] = (pat = [])"
| "literal_search pat (c # cs) = (prefix pat (c # cs) \<or> literal_search pat cs)"

section \<open>Views of the aggregator\<close>

text \<open>The sets the lists of an aggregator stand for: \<^verbatim>\<open>clusters[P]\<close> and \<^verbatim>\<open>values[P][v]\<close>.\<close>

definition clusters_at :: "agg \<Rightarrow> string \<Rightarrow> string set" where
  "clusters_at a p = (case map_of a p of None \<Rightarrow> {} | Some nd \<Rightarrow> set (clusters nd))"

definition values_at :: "agg \<Rightarrow> string \<Rightarrow> string \<Rightarrow> string set" where
  "values_at a p v =
     (case map_of a p of
        None \<Rightarrow> {}
      | Some nd \<Rightarrow>
         (case vals nd of
            None \<Rightarrow> {}
          | Some vs \<Rightarrow> (case map_of vs v of None \<Rightarrow> {} | Some srcs \<Rightarrow> set srcs)))"

text \<open>The dict \<^verbatim>\<open>'values'\<close> of a node, empty when absent, and the list of sources under a value.\<close>

definition node_values :: "node \<Rightarrow> (string \<times> string list) list" where
  "node_values nd = (case vals nd of None \<Rightarrow> [] | Some vs \<Rightarrow> vs)"

definition value_sources :: "node \<Rightarrow> string \<Rightarrow> string list" where
  "value_sources nd v = (case map_of (node_values nd) v of None \<Rightarrow> [] | Some srcs \<Rightarrow> srcs)"

section \<open>Concrete parsers and files\<close>

text \<open>
  For runs on concrete files: a reader of files given by their contents, and parsers given
  by the texts they accept with what the library returns for each; every other text is
  refused.
\<close>

definition read_from :: "(string \<times> string) list \<Rightarrow> string \<Rightarrow> string" where
  "read_from files b = (case map_of files b of None \<Rightarrow> [] | Some t \<Rightarrow> t)"

definition json_table :: "(string \<times> doc) list \<Rightarrow> parsers" where
  "json_table tbl = \<lparr>xmltodict_parse = (\<lambda>kk s. None), json_loads = (\<lambda>kk s. map_of tbl s)\<rparr>"

definition no_parse :: parsers where
  "no_parse = json_table []"

section \<open>The wording of the specification and the invariant\<close>

text \<open>
  The display modes as the specification words them, on the set of the sources of a row:
  with \<^verbatim>\<open>-s\<close> a row is hidden iff its sources are not all the configurations, with
  \<^verbatim>\<open>-v\<close> never, otherwise iff they are all the configurations. \<^verbatim>\<open>validate_args\<close>
  refuses \<^verbatim>\<open>-s\<close> together with \<^verbatim>\<open>-v\<close>.
\<close>

definition mode_hides :: "config \<Rightarrow> string list \<Rightarrow> bool" where
  "mode_hides self S =
     (if same_flag self then set S \<noteq> set (configs self)
      else if verbose_flag self then False
      else set S = set (configs self))"

text \<open>
  The pattern filters as the specification words them: a row is hidden when an include
  pattern is set and not found in the key of the row, or an exclude pattern is set and
  found in it.
\<close>

definition pattern_hides :: "(string \<Rightarrow> string \<Rightarrow> bool) \<Rightarrow> config \<Rightarrow> string \<Rightarrow> bool" where
  "pattern_hides re_search self key =
     ((case include_pattern self of None \<Rightarrow> False | Some i \<Rightarrow> \<not> re_search i key) \<or>
      (case exclude_pattern self of None \<Rightarrow> False | Some e \<Rightarrow> re_search e key))"


text \<open>
  The invariant of the aggregator: at every path, the sources of every value are among
  the sources of the path. \<open>kept a a'\<close> says that \<open>a'\<close> has the invariant and has lost
  no source of a path that \<open>a\<close> had; \<open>registered\<close> that the walker has put the source at
  its label; \<open>sound\<close> that a walker started in such a state ends in one, however it ends.
\<close>

definition covered :: "agg \<Rightarrow> bool" where
  "covered a = (\<forall>p v. values_at a p v \<subseteq> clusters_at a p)"

definition kept :: "agg \<Rightarrow> agg \<Rightarrow> bool" where
  "kept a a' = (covered a' \<and> (\<forall>p. clusters_at a p \<subseteq> clusters_at a' p))"

definition registered :: "string \<Rightarrow> string option \<Rightarrow> agg \<Rightarrow> bool" where
  "registered b label a = (case label of None \<Rightarrow> True | Some l \<Rightarrow> b \<in> clusters_at a l)"

definition sound :: "string \<Rightarrow> (string option \<Rightarrow> agg \<Rightarrow> doc \<Rightarrow> outcome) \<Rightarrow> bool" where
  "sound b walk =
     (\<forall>label a d. covered a \<longrightarrow> registered b label a \<longrightarrow> kept a (state_of (walk label a d)))"

section \<open>The value recorder: \<^verbatim>\<open>_chk_label\<close> and \<^verbatim>\<open>_do_plain_text\<close>\<close>

lemma do_plain_text_empty: "do_plain_text b l a kk [] = Done a"
  by (simp add: do_plain_text_def)

lemma do_plain_text_Some:
  assumes "v \<noteq> []" and "py_str kk v = Some v" and "map_of a p = Some nd"
  shows "do_plain_text b (Some p) a kk v =
     Done (AList.update p
       (nd\<lparr>vals := Some (AList.update (clean_text v)
          (if b \<notin> set (value_sources nd (clean_text v))
           then value_sources nd (clean_text v) @ [b] else value_sources nd (clean_text v))
          (node_values nd))\<rparr>) a)"
proof -
  have "\<not> length v < 1" using assms(1) by (cases v) simp_all
  then show ?thesis
    using assms(2,3)
    by (auto simp: do_plain_text_def Let_def node_values_def value_sources_def)
qed

lemma py_str_cases: "py_str kk v = None \<or> py_str kk v = Some v"
  by (simp add: py_str_def)

lemma do_plain_text_cases:
  "state_of (do_plain_text b l a kk v) = a
   \<or> (\<exists>p nd. l = Some p \<and> v \<noteq> [] \<and> py_str kk v = Some v \<and> map_of a p = Some nd)"
proof (cases "v = []")
  case True
  then show ?thesis by (simp add: do_plain_text_def)
next
  case False
  then have nl: "\<not> length v < 1" by (cases v) simp_all
  show ?thesis
    using nl py_str_cases[of kk v]
    by (auto simp: do_plain_text_def split: option.splits)
qed

lemma do_plain_text_views:
  assumes "v \<noteq> []" and "py_str kk v = Some v" and "map_of a p = Some nd"
  shows "clusters_at (state_of (do_plain_text b (Some p) a kk v)) p' = clusters_at a p'"
    and "values_at (state_of (do_plain_text b (Some p) a kk v)) p' v' =
          (if p' = p \<and> v' = clean_text v then insert b (values_at a p v') else values_at a p' v')"
  using assms(3)
  by (auto simp: do_plain_text_Some[OF assms] clusters_at_def values_at_def update_conv'
      node_values_def value_sources_def
      split: option.splits if_splits)

lemma do_plain_text_idem:
  "do_plain_text b l (state_of (do_plain_text b l a kk v)) kk v = do_plain_text b l a kk v"
proof -
  consider (same) "state_of (do_plain_text b l a kk v) = a"
    | (rec) p nd where "l = Some p" "v \<noteq> []" "py_str kk v = Some v" "map_of a p = Some nd"
    using do_plain_text_cases[of b l a kk v] by blast
  then show ?thesis
  proof cases
    case same
    then show ?thesis by simp
  next
    case rec
    define S where "S = (if b \<notin> set (value_sources nd (clean_text v))
         then value_sources nd (clean_text v) @ [b] else value_sources nd (clean_text v))"
    define nd' where "nd' = nd\<lparr>vals := Some (AList.update (clean_text v) S (node_values nd))\<rparr>"
    have first: "do_plain_text b (Some p) a kk v = Done (AList.update p nd' a)"
      unfolding nd'_def S_def by (rule do_plain_text_Some[OF rec(2,3,4)])
    have bS: "b \<in> set S" by (simp add: S_def)
    have m: "map_of (AList.update p nd' a) p = Some nd'" by (simp add: update_conv')
    have nv: "node_values nd' = AList.update (clean_text v) S (node_values nd)"
      by (simp add: nd'_def node_values_def)
    have vs: "value_sources nd' (clean_text v) = S"
      by (simp add: value_sources_def nv update_conv')
    have "do_plain_text b (Some p) (AList.update p nd' a) kk v = Done (AList.update p nd' a)"
      unfolding do_plain_text_Some[OF rec(2,3) m] vs nv using bS
      by (simp add: nd'_def)
    then show ?thesis using first rec(1) by simp
  qed
qed

lemma chk_label_views:
  "clusters_at (chk_label a p b) p' = (if p' = p then insert b (clusters_at a p) else clusters_at a p')"
  "values_at (chk_label a p b) p' v' = values_at a p' v'"
  "map_of (chk_label a p b) p \<noteq> None"
  by (auto simp: chk_label_def clusters_at_def values_at_def update_conv' Let_def
      split: option.splits if_splits)

lemma clean_text_no_tab_nl: "TAB \<notin> set (clean_text s) \<and> NL \<notin> set (clean_text s)"
proof -
  have a: "set (rstrip t) \<subseteq> set t" for t
    unfolding rstrip_def using set_dropWhileD[of _ is_space "rev t"] by auto
  have b: "set (lstrip t) \<subseteq> set t" for t
    unfolding lstrip_def using set_dropWhileD[of _ is_space t] by auto
  have c: "TAB \<notin> set (sub_char NL [BSL, CHR ''n''] (sub_char TAB '' '' s))"
    by (auto simp: sub_char_def split: if_splits)
  have d: "NL \<notin> set (sub_char NL [BSL, CHR ''n''] (sub_char TAB '' '' s))"
    by (auto simp: sub_char_def split: if_splits)
  show ?thesis unfolding clean_text_def using a b c d by blast
qed

text \<open>
  What the recorder does where it records: at a path that has a node, on a non-empty text
  that \<^verbatim>\<open>str\<close> accepts, the source is added under the normalised text at that path,
  nothing else changes, and a second call changes nothing. The walker registers the
  source at the path with \<^verbatim>\<open>_chk_label\<close> before every such call, so the source is
  among \<^verbatim>\<open>clusters[path]\<close> afterwards.
\<close>

lemma record_after_registering:
  assumes "v \<noteq> []" and "py_str kk v = Some v"
  shows "\<exists>a'. do_plain_text b (Some p) (chk_label a p b) kk v = Done a'
     \<and> b \<in> clusters_at a' p
     \<and> values_at a' p (clean_text v) = insert b (values_at a p (clean_text v))
     \<and> do_plain_text b (Some p) a' kk v = Done a'"
proof -
  obtain nd where nd: "map_of (chk_label a p b) p = Some nd"
    using chk_label_views(3)[of a p b] by blast
  obtain a' where a': "do_plain_text b (Some p) (chk_label a p b) kk v = Done a'"
    using do_plain_text_Some[OF assms nd, of b] by blast
  have "clusters_at a' p = clusters_at (chk_label a p b) p"
    using do_plain_text_views(1)[OF assms nd, of b p] a' by simp
  then have 1: "b \<in> clusters_at a' p" by (simp add: chk_label_views)
  have 2: "values_at a' p (clean_text v) = insert b (values_at a p (clean_text v))"
    using do_plain_text_views(2)[OF assms nd, of b p "clean_text v"] a'
    by (simp add: chk_label_views)
  have 3: "do_plain_text b (Some p) a' kk v = Done a'"
    using do_plain_text_idem[of b "Some p" "chk_label a p b" kk v] a' by simp
  from a' 1 2 3 show ?thesis by blast
qed

text \<open>
  Claim C8 has every call of the recorder with a non-empty text normalise it and add the
  source under it. Two calls that a run makes do not. A \<^verbatim>\<open>unicode\<close> text with a
  character above 127, as \<^verbatim>\<open>json.loads\<close> returns for the value of \<^verbatim>\<open>"p"\<close> in a
  file that reads \<^verbatim>\<open>{"p": "\<close>e-acute\<^verbatim>\<open>"}\<close> (the two bytes C3 A9 in the file, the
  code point E9 in the value), is refused by \<^verbatim>\<open>str\<close> on line 49: the call raises
  \<^verbatim>\<open>UnicodeEncodeError\<close> and records nothing; the handler of the top-level call then
  records the file's text at the label \<^verbatim>\<open>None\<close>, which has no node, and the run ends
  with \<^verbatim>\<open>KeyError\<close>. So does the run on a file that is plain text, \<^verbatim>\<open>hello\<close>: line
  55 raises \<^verbatim>\<open>KeyError\<close> and nothing is recorded.
\<close>

theorem record_raises_instead_of_recording:
  \<open>do_plain_text ''A'' (Some ''p'') (chk_label [] ''p'' ''A'') Unicode [CHR 0xE9]
     = Raised UnicodeEncodeError [(''p'', \<lparr>clusters = [''A''], vals = None\<rparr>)]
   \<and> do_compare
       (json_table [(''{"p": "'' @ [CHR 0xC3, CHR 0xA9] @ ''"}'' @ [NL],
                     Dict Unicode [(''p'', Uni [CHR 0xE9])]),
                    (''{"p": "x"}'' @ [NL], Dict Unicode [(''p'', Uni ''x'')])])
       3 (read_from [(''A'', ''{"p": "'' @ [CHR 0xC3, CHR 0xA9] @ ''"}'' @ [NL]),
                     (''B'', ''{"p": "x"}'' @ [NL])]) [''A'', ''B'']
     = Raised KeyError [(''p'', \<lparr>clusters = [''A''], vals = None\<rparr>)]
   \<and> do_compare no_parse 3
       (read_from [(''A'', ''hello'' @ [NL]), (''B'', ''hello'' @ [NL])]) [''A'', ''B'']
     = Raised KeyError []\<close>
  by code_simp


section \<open>Sequences of mappings in the walker\<close>






section \<open>Text that looks like markup and does not parse\<close>

text \<open>
  Claim C3 has a text that looks like markup and does not parse as such handled as
  freeform text. For a text on which the sniff pattern matches, \<^verbatim>\<open>xmltodict.parse\<close> is
  called outside any \<^verbatim>\<open>try\<close>: when it raises, so does the walker, with the aggregator
  as it was, whatever the fuel, the label and the kind of the text.
\<close>

theorem markup_parse_failure_propagates:
  assumes "xml_like s" and "xmltodict_parse ps kk s = None"
  shows "do_branch ps (Suc n) b l a (mk_text kk s) = Raised ParseError a"
  using assms by (cases kk) (simp_all add: do_text_def mk_text_def)

theorem markup_parse_failure_propagates_witness:
  "xml_like ''<a>'' \<and> xmltodict_parse no_parse Unicode ''<a>'' = None
   \<and> do_branch no_parse (Suc 0) ''A'' (Some ''p'') (chk_label [] ''p'' ''A'')
        (mk_text Unicode ''<a>'') = Raised ParseError (chk_label [] ''p'' ''A'')"
proof -
  have h1: "xml_like ''<a>''"
    by (simp add: xml_like_def lstrip_def is_space_def is_word_def)
  have h2: "xmltodict_parse no_parse Unicode ''<a>'' = None"
    by (simp add: no_parse_def json_table_def)
  from markup_parse_failure_propagates[OF h1 h2, of 0 "''A''" "Some ''p''" "chk_label [] ''p'' ''A''"]
    h1 h2
  show ?thesis by blast
qed


text \<open>
  The sibling branch does what the claim says: a text with a newline that
  \<^verbatim>\<open>json.loads\<close> refuses is recorded and handed to \<^verbatim>\<open>_do_file\<close>.
\<close>

lemma json_parse_failure_falls_back:
  assumes "\<not> xml_like s" and "NL \<in> set s" and "json_loads ps kk s = None"
  shows "do_branch ps (Suc n) b l a (mk_text kk s) =
     (case do_plain_text b l a kk s of
        Done a1 \<Rightarrow> do_file (\<lambda>l a d. do_branch ps n b l a d) l a1 kk s
      | r \<Rightarrow> r)"
  using assms by (cases kk) (auto simp: do_text_def mk_text_def split: outcome.splits)


section \<open>Continued lines in freeform text\<close>



section \<open>Assignments in freeform text\<close>

text \<open>
  Claim C5 has a line split at its first \<^verbatim>\<open>=\<close> that is not part of \<^verbatim>\<open>==\<close>, and the
  key and the value recorded as they stand between. The source protects \<^verbatim>\<open>==\<close> by
  writing \<^verbatim>\<open>equalsequals\<close> for it and turns every \<^verbatim>\<open>equalsequals\<close> of the key and
  of the value back into \<^verbatim>\<open>==\<close>, also one that the line had: the line
  \<^verbatim>\<open>equalsequals=1\<close> is recorded under the key \<^verbatim>\<open>==\<close>. The lines of the claim,
  \<^verbatim>\<open>flag==true\<close> and \<^verbatim>\<open>flag=true\<close>, are recorded as it says.
\<close>

theorem assignment_key_rewritten:
  "do_branch no_parse 4 ''A'' (Some ''P'') (chk_label [] ''P'' ''A'')
      (Uni (''equalsequals=1'' @ [NL]))
     = Done [(''P'', \<lparr>clusters = [''A''],
               vals = Some [(''equalsequals=1'' @ [BSL, CHR ''n''], [''A''])]\<rparr>),
             (''P : =='', \<lparr>clusters = [''A''], vals = Some [(''1'', [''A''])]\<rparr>)]
   \<and> do_branch no_parse 4 ''A'' (Some ''P'') (chk_label [] ''P'' ''A'')
      (Uni (''flag==true'' @ [NL] @ ''flag=true'' @ [NL]))
     = Done [(''P'', \<lparr>clusters = [''A''],
               vals = Some [(''flag==true'' @ [BSL, CHR ''n''] @ ''flag=true''
                               @ [BSL, CHR ''n''], [''A'']),
                            (''flag==true'', [''A''])]\<rparr>),
             (''P : flag'', \<lparr>clusters = [''A''], vals = Some [(''true'', [''A''])]\<rparr>)]"
  by code_simp

section \<open>The invariant of the aggregator\<close>

lemma kept_refl: "covered a \<Longrightarrow> kept a a"
  by (simp add: kept_def)

lemma kept_trans: "kept a a' \<Longrightarrow> kept a' a'' \<Longrightarrow> kept a a''"
  unfolding kept_def by blast

lemma kept_covered: "kept a a' \<Longrightarrow> covered a'"
  by (simp add: kept_def)

lemma kept_registered: "kept a a' \<Longrightarrow> registered b label a \<Longrightarrow> registered b label a'"
  unfolding kept_def registered_def by (cases label) auto

lemma chk_label_kept: "covered a \<Longrightarrow> kept a (chk_label a p b)"
  unfolding kept_def covered_def by (auto simp: chk_label_views)

lemma chk_label_registered: "registered b (Some p) (chk_label a p b)"
  by (simp add: registered_def chk_label_views)

lemma do_plain_text_kept:
  assumes "covered a" and "registered b l a"
  shows "kept a (state_of (do_plain_text b l a kk v))"
proof -
  consider (same) "state_of (do_plain_text b l a kk v) = a"
    | (rec) p nd where "l = Some p" "v \<noteq> []" "py_str kk v = Some v" "map_of a p = Some nd"
    using do_plain_text_cases[of b l a kk v] by blast
  then show ?thesis
  proof cases
    case same
    then show ?thesis using assms(1) by (simp add: kept_refl)
  next
    case rec
    have b: "b \<in> clusters_at a p" using assms(2) rec(1) by (simp add: registered_def)
    show ?thesis
      unfolding kept_def covered_def rec(1)
        do_plain_text_views(1)[OF rec(2,3,4)] do_plain_text_views(2)[OF rec(2,3,4)]
      using assms(1) b unfolding covered_def by auto
  qed
qed

lemma for_each_inv:
  assumes "\<And>x a. x \<in> set xs \<Longrightarrow> Q a \<Longrightarrow> Q (state_of (body x a))" and "Q a"
  shows "Q (state_of (for_each body xs a))"
  using assms
proof (induction xs arbitrary: a)
  case Nil
  then show ?case by simp
next
  case (Cons x xs)
  have q: "Q (state_of (body x a))" using Cons.prems by simp
  show ?case
  proof (cases "body x a")
    case (Done a1)
    then have "Q a1" using q by simp
    then have "Q (state_of (for_each body xs a1))" using Cons by simp
    then show ?thesis using Done by simp
  next
    case (Raised e a1)
    then show ?thesis using q by simp
  next
    case (OutOfFuel a1)
    then show ?thesis using q by simp
  qed
qed

lemma sound_step:
  assumes "sound b w" and "kept a0 a" and "registered b label a"
  shows "kept a0 (state_of (w label a d))"
  using assms unfolding sound_def by (meson kept_covered kept_trans)

lemma walk_children_kept:
  assumes "sound b w" and "covered a"
  shows "kept a (state_of (walk_children w b label kk kvs a))"
  unfolding walk_children_def
proof (rule for_each_inv[where Q = "kept a"])
  show "kept a a" using assms(2) by (rule kept_refl)
next
  fix kv a'
  assume k: "kept a a'"
  show "kept a (state_of (case py_str kk (fst kv) of
           None \<Rightarrow> Raised UnicodeEncodeError a'
         | Some k \<Rightarrow> w (Some (ext_label label (clean_key k)))
               (chk_label a' (ext_label label (clean_key k)) b) (snd kv)))"
  proof (cases "py_str kk (fst kv)")
    case None
    then show ?thesis using k by simp
  next
    case (Some k')
    let ?l = "ext_label label (clean_key k')"
    have "kept a (chk_label a' ?l b)"
      using k chk_label_kept[of a' ?l b] by (meson kept_covered kept_trans)
    then have "kept a (state_of (w (Some ?l) (chk_label a' ?l b) (snd kv)))"
      using sound_step[OF assms(1) _ chk_label_registered] by blast
    then show ?thesis using Some by simp
  qed
qed

lemma do_file_lines_kept:
  assumes "sound b w"
  shows "kept a0 a \<Longrightarrow> registered b label a \<Longrightarrow>
         kept a0 (state_of (do_file_lines w kk label lines pol a))"
proof (induction lines arbitrary: pol a)
  case Nil
  then show ?case by simp
next
  case (Cons line lines)
  have walk: "kept a0 (state_of (w label a d))" for d
    using sound_step[OF assms Cons.prems] by blast
  have cont: "kept a0 (state_of (case w label a d of
        Done a1 \<Rightarrow> do_file_lines w kk label lines pol' a1 | r \<Rightarrow> r))" for d pol'
  proof (cases "w label a d")
    case (Done a1)
    then have k1: "kept a0 a1" using walk[of d] by simp
    have "kept a a1" using sound_step[OF assms kept_refl Cons.prems(2), of d] Cons.prems(1) Done
      by (simp add: kept_covered)
    then have "registered b label a1" using Cons.prems(2) by (rule kept_registered)
    then show ?thesis using Cons.IH[OF k1] Done by simp
  next
    case (Raised e a1)
    then show ?thesis using walk[of d] by simp
  next
    case (OutOfFuel a1)
    then show ?thesis using walk[of d] by simp
  qed
  show ?case
    using Cons.IH[OF Cons.prems] cont
    by (simp add: Let_def split: option.splits)
qed

lemma do_text_kept:
  assumes "sound b w" and "covered a" and "registered b label a"
  shows "kept a (state_of (do_text w ps b label a kk s))"
proof -
  have walk: "kept a (state_of (w label a d))" for d
    using sound_step[OF assms(1) kept_refl[OF assms(2)] assms(3)] .
  have tc: "kept a (state_of (case do_plain_text b label a' kk s of
                 Done a1 \<Rightarrow> do_file w label a1 kk s | r \<Rightarrow> r))"
    if k: "kept a a'" for a'
  proof -
    have r: "registered b label a'" using k assms(3) by (rule kept_registered)
    have p: "kept a (state_of (do_plain_text b label a' kk s))"
      using do_plain_text_kept[OF kept_covered[OF k] r] k by (meson kept_trans)
    show ?thesis
    proof (cases "do_plain_text b label a' kk s")
      case (Done a1)
      then have k1: "kept a a1" using p by simp
      have "kept a' a1" using do_plain_text_kept[OF kept_covered[OF k] r, of kk s] Done by simp
      then have "registered b label a1" using r by (rule kept_registered)
      then show ?thesis using do_file_lines_kept[OF assms(1) k1] Done
        by (simp add: do_file_def)
    next
      case (Raised e a1)
      then show ?thesis using p by simp
    next
      case (OutOfFuel a1)
      then show ?thesis using p by simp
    qed
  qed
  show ?thesis
  proof (cases "xml_like s")
    case True
    then show ?thesis using walk by (simp add: do_text_def split: option.splits)
      (simp add: kept_refl[OF assms(2)])
  next
    case nx: False
    show ?thesis
    proof (cases "NL \<in> set s")
      case False
      then show ?thesis using nx do_plain_text_kept[OF assms(2,3)] by (simp add: do_text_def)
    next
      case True
      show ?thesis
      proof (cases "json_loads ps kk s")
        case None
        then show ?thesis using nx True tc[OF kept_refl[OF assms(2)]]
          by (simp add: do_text_def)
      next
        case (Some d)
        show ?thesis
        proof (cases "w label a d")
          case (Done a1)
          then show ?thesis using nx True Some walk[of d] by (simp add: do_text_def)
        next
          case (Raised e a1)
          then have "kept a a1" using walk[of d] by simp
          then show ?thesis using nx True Some Raised tc by (simp add: do_text_def)
        next
          case (OutOfFuel a1)
          then show ?thesis using nx True Some walk[of d] by (simp add: do_text_def)
        qed
      qed
    qed
  qed
qed

lemma do_branch_sound: "sound b (\<lambda>l a d. do_branch ps n b l a d)"
proof (induction n)
  case 0
  then show ?case by (simp add: sound_def kept_refl)
next
  case (Suc n)
  let ?w = "\<lambda>l a d. do_branch ps n b l a d"
  show ?case
    unfolding sound_def
  proof (intro allI impI)
    fix label a d
    assume c: "covered a" and r: "registered b label a"
    show "kept a (state_of (do_branch ps (Suc n) b label a d))"
    proof (cases d)
      case (ODict kk kvs)
      show ?thesis
      proof (cases "attr_keys_ok kk kvs")
        case False
        then show ?thesis using ODict c by (simp add: kept_refl)
      next
        case True
        show ?thesis
        proof (cases "foldl attr_step None (sort_key fst kvs)")
          case None
          then show ?thesis using ODict True walk_children_kept[OF Suc c] by simp
        next
          case (Some av)
          obtain al v where av: "av = (al, v)" by (cases av)
          let ?l = "ext_label label al"
          have k0: "kept a (chk_label a ?l b)" using c by (rule chk_label_kept)
          have k1: "kept a (state_of (do_branch ps n b (Some ?l) (chk_label a ?l b) (Uni v)))"
            using sound_step[OF Suc k0 chk_label_registered] .
          show ?thesis
          proof (cases "do_branch ps n b (Some ?l) (chk_label a ?l b) (Uni v)")
            case (Done a1)
            then have "kept a a1" using k1 by simp
            then have "kept a (state_of (walk_children ?w b (Some ?l) kk
                (filter (\<lambda>kv. \<not> is_unicode (snd kv)) (sort_key fst kvs)) a1))"
              using walk_children_kept[OF Suc kept_covered] by (meson kept_trans)
            then show ?thesis using ODict True Some av Done by simp
          next
            case (Raised e a1)
            then show ?thesis using ODict True Some av k1 by simp
          next
            case (OutOfFuel a1)
            then show ?thesis using ODict True Some av k1 by simp
          qed
        qed
      qed
    next
      case (Dict kk kvs)
      then show ?thesis using walk_children_kept[OF Suc c] by simp
    next
      case (DList es)
      have "kept a (state_of (for_each (\<lambda>e a'.
           do_branch ps n b (Some (ext_label label ''ELEMENT''))
             (chk_label a' (ext_label label ''ELEMENT'') b) e) es a))"
      proof (rule for_each_inv[where Q = "kept a"])
        show "kept a a" using c by (rule kept_refl)
      next
        fix e a'
        assume k: "kept a a'"
        let ?l = "ext_label label ''ELEMENT''"
        have "kept a (chk_label a' ?l b)"
          using k chk_label_kept[of a' ?l b] by (meson kept_covered kept_trans)
        then show "kept a (state_of (do_branch ps n b (Some ?l) (chk_label a' ?l b) e))"
          using sound_step[OF Suc _ chk_label_registered] by blast
      qed
      then show ?thesis using DList by simp
    next
      case (Str s)
      then show ?thesis using do_text_kept[OF Suc c r] by simp
    next
      case (Uni s)
      then show ?thesis using do_text_kept[OF Suc c r] by simp
    next
      case (IntV i)
      then show ?thesis using c by (simp add: kept_refl)
    next
      case (FloatV s)
      then show ?thesis using do_plain_text_kept[OF c r] by simp
    next
      case NoneV
      then show ?thesis using c by (simp add: kept_refl)
    next
      case Other
      then show ?thesis using c by (simp add: kept_refl)
    qed
  qed
qed

lemma do_branch_covered:
  assumes "covered a" and "registered b label a"
  shows "covered (state_of (do_branch ps n b label a d))"
  using do_branch_sound[of b ps n] assms unfolding sound_def by (meson kept_covered)

lemma do_compare_covered: "covered (state_of (do_compare ps fuel read_file cs))"
  unfolding do_compare_def
proof (rule for_each_inv[where Q = covered])
  show "covered []" by (simp add: covered_def values_at_def)
next
  fix b a
  assume "covered a"
  then show "covered (state_of (do_branch ps fuel b None a (Str (read_file b))))"
    by (rule do_branch_covered) (simp add: registered_def)
qed

lemma finite_clusters_at: "finite (clusters_at a p)"
  by (simp add: clusters_at_def split: option.splits)


text \<open>
  Claim C2. In the aggregator that a run leaves, however the run ends (normally, by a
  raise, or cut by the fuel at any depth), for every parser, every file and every list of
  configurations, the sources of the values at a path are among the sources of the path,
  and are no more numerous. The same holds for every single walk, from every aggregator
  that has the property and every label at which the source is registered, as it is at
  every call the walker makes: so it holds between any two steps of the merge.
\<close>

theorem clusters_cover_values:
  "(\<Union>v. values_at (state_of (do_compare ps fuel read_file cs)) p v)
      \<subseteq> clusters_at (state_of (do_compare ps fuel read_file cs)) p
   \<and> card (\<Union>v. values_at (state_of (do_compare ps fuel read_file cs)) p v)
      \<le> card (clusters_at (state_of (do_compare ps fuel read_file cs)) p)
   \<and> ((\<forall>q w. values_at a q w \<subseteq> clusters_at a q)
        \<and> (case label of None \<Rightarrow> True | Some l \<Rightarrow> b \<in> clusters_at a l)
      \<longrightarrow> (\<Union>v. values_at (state_of (do_branch ps n b label a d)) p v)
             \<subseteq> clusters_at (state_of (do_branch ps n b label a d)) p
         \<and> card (\<Union>v. values_at (state_of (do_branch ps n b label a d)) p v)
             \<le> card (clusters_at (state_of (do_branch ps n b label a d)) p))"
proof -
  let ?a = "state_of (do_compare ps fuel read_file cs)"
  let ?s = "state_of (do_branch ps n b label a d)"
  have 1: "(\<Union>v. values_at ?a p v) \<subseteq> clusters_at ?a p"
    using do_compare_covered[of ps fuel read_file cs] unfolding covered_def by blast
  have 2: "card (\<Union>v. values_at ?a p v) \<le> card (clusters_at ?a p)"
    using 1 by (simp add: card_mono finite_clusters_at)
  have 3: "(\<Union>v. values_at ?s p v) \<subseteq> clusters_at ?s p
      \<and> card (\<Union>v. values_at ?s p v) \<le> card (clusters_at ?s p)"
    if "\<forall>q w. values_at a q w \<subseteq> clusters_at a q"
      and "case label of None \<Rightarrow> True | Some l \<Rightarrow> b \<in> clusters_at a l"
  proof -
    have c: "covered a" using that(1) by (simp add: covered_def)
    have r: "registered b label a" using that(2) by (simp add: registered_def)
    have s: "(\<Union>v. values_at ?s p v) \<subseteq> clusters_at ?s p"
      using do_branch_covered[OF c r, of ps n d] unfolding covered_def by blast
    then show ?thesis by (simp add: card_mono finite_clusters_at)
  qed
  from 1 2 3 show ?thesis by blast
qed

theorem clusters_cover_values_witness:
  "(\<forall>q w. values_at (chk_label [] ''p'' ''A'') q w \<subseteq> clusters_at (chk_label [] ''p'' ''A'') q)
   \<and> ''A'' \<in> clusters_at (chk_label [] ''p'' ''A'') ''p''
   \<and> (\<Union>v. values_at (state_of (do_branch no_parse 2 ''A'' (Some ''p'')
              (chk_label [] ''p'' ''A'') (Uni ''x''))) ''p'' v)
      \<subseteq> clusters_at (state_of (do_branch no_parse 2 ''A'' (Some ''p'')
              (chk_label [] ''p'' ''A'') (Uni ''x''))) ''p''
   \<and> state_of (do_branch no_parse 2 ''A'' (Some ''p'') (chk_label [] ''p'' ''A'') (Uni ''x''))
      = [(''p'', \<lparr>clusters = [''A''], vals = Some [(''x'', [''A''])]\<rparr>)]"
proof -
  define a where "a = chk_label [] ''p'' ''A''"
  have a: "a = [(''p'', \<lparr>clusters = [''A''], vals = None\<rparr>)]"
    unfolding a_def by (simp add: chk_label_def)
  have h1: "\<forall>q w. values_at a q w \<subseteq> clusters_at a q"
    unfolding a by (simp add: values_at_def)
  have h2: "''A'' \<in> clusters_at a ''p''" unfolding a by (simp add: clusters_at_def)
  have h3: "case Some ''p'' of None \<Rightarrow> True | Some l \<Rightarrow> ''A'' \<in> clusters_at a l"
    using h2 by simp
  have r: "state_of (do_branch no_parse 2 ''A'' (Some ''p'') (chk_label [] ''p'' ''A'') (Uni ''x''))
      = [(''p'', \<lparr>clusters = [''A''], vals = Some [(''x'', [''A''])]\<rparr>)]"
    by code_simp
  define s where "s = state_of (do_branch no_parse 2 ''A'' (Some ''p'') a (Uni ''x''))"
  have t: "(\<forall>q w. values_at a q w \<subseteq> clusters_at a q)
        \<and> (case Some ''p'' of None \<Rightarrow> True | Some l \<Rightarrow> ''A'' \<in> clusters_at a l)
      \<longrightarrow> (\<Union>v. values_at s ''p'' v) \<subseteq> clusters_at s ''p''
         \<and> card (\<Union>v. values_at s ''p'' v) \<le> card (clusters_at s ''p'')"
    unfolding s_def
    using clusters_cover_values[where ps = no_parse and p = "''p''" and a = a
        and label = "Some ''p''" and b = "''A''" and n = 2 and d = "Uni ''x''"]
    by (rule conjunct2[OF conjunct2])
  have "(\<Union>v. values_at s ''p'' v) \<subseteq> clusters_at s ''p''
         \<and> card (\<Union>v. values_at s ''p'' v) \<le> card (clusters_at s ''p'')"
    using t h1 h3 by (rule mp[OF _ conjI])
  then have "(\<Union>v. values_at s ''p'' v) \<subseteq> clusters_at s ''p''" by (rule conjunct1)
  then show ?thesis using h1 h2 r unfolding s_def a_def by simp
qed

section \<open>The report\<close>












text \<open>
  \<^verbatim>\<open>_skip_line\<close> compares the lengths of the two lists; for lists without duplicates,
  the one within the other, that is the comparison of the sets. The lists of the aggregator
  are such: a source is appended only where it is not yet.
\<close>

lemma len_eq_iff_set_eq:
  assumes "distinct S" "distinct C" "set S \<subseteq> set C"
  shows "(length S = length C) = (set S = set C)"
proof
  assume "length S = length C"
  then have "card (set S) = card (set C)" using assms by (simp add: distinct_card)
  then show "set S = set C" using assms(3) by (simp add: card_subset_eq)
next
  assume "set S = set C"
  then have "card (set S) = card (set C)" by simp
  then show "length S = length C" using assms by (simp add: distinct_card)
qed

lemma skip_line_sets:
  assumes "distinct S" and "distinct (configs self)" and "set S \<subseteq> set (configs self)"
  shows "skip_line self S =
           (if same_flag self then set S \<noteq> set (configs self)
            else if verbose_flag self then False
            else set S = set (configs self))"
  using len_eq_iff_set_eq[OF assms] by (simp add: skip_line_def)

lemma spew_path_rows:
  "option_list (spew_path_differences re self key S) =
     (if skip_line self S \<or> skip_value re self key then [] else [path_row self key S])"
  by (simp add: spew_path_differences_def option_list_def)

lemma spew_value_rows:
  "option_list (spew_value_differences re self key S) =
     (if skip_line self S \<or> skip_value re self key then [] else [value_row self key S])"
  by (simp add: spew_value_differences_def option_list_def)

lemma skip_value_pattern_hides: "skip_value re self key = pattern_hides re self key"
  by (simp add: skip_value_def skip_include_test_def skip_exclude_test_def pattern_hides_def
      split: option.splits)

lemma print_differences_rows:
  assumes "map_of (node_values nd) ''clusters'' = None"
  shows "print_differences re self path nd =
      (if skip_line self (clusters nd) \<or> skip_value re self path then []
       else [path_row self path (clusters nd)])
      @ concat (map (\<lambda>dk.
          if skip_line self (sort (snd dk)) \<or> skip_value re self (path @ '' : '' @ fst dk)
          then [] else [value_row self (path @ '' : '' @ fst dk) (sort (snd dk))])
        (sort_key fst (node_values nd)))"
proof (cases "vals nd")
  case None
  then show ?thesis
    by (simp add: print_differences_def spew_path_rows node_values_def)
next
  case (Some vs)
  then have "map_of vs ''clusters'' = None" using assms by (simp add: node_values_def)
  then show ?thesis using Some
    by (simp add: print_differences_def print_values_def spew_path_rows spew_value_rows
        node_values_def cong: if_cong)
qed

text \<open>
  At a path none of whose values reads \<^verbatim>\<open>clusters\<close>, with no pattern set, the rows
  written are those that the display mode does not hide.
\<close>

lemma display_modes_rows:
  assumes "map_of (node_values nd) ''clusters'' = None"
    and "include_pattern self = None" and "exclude_pattern self = None"
    and "distinct (configs self)"
    and "distinct (clusters nd)" and "set (clusters nd) \<subseteq> set (configs self)"
    and "\<And>v S. (v, S) \<in> set (node_values nd) \<Longrightarrow> distinct S \<and> set S \<subseteq> set (configs self)"
  shows "print_differences re self path nd =
      (if mode_hides self (clusters nd) then [] else [path_row self path (clusters nd)])
      @ concat (map (\<lambda>dk.
          if mode_hides self (snd dk) then []
          else [value_row self (path @ '' : '' @ fst dk) (sort (snd dk))])
        (sort_key fst (node_values nd)))"
proof -
  have sv: "skip_value re self k = False" for k
    using assms(2,3) by (simp add: skip_value_def skip_include_test_def skip_exclude_test_def)
  have p: "skip_line self (clusters nd) = mode_hides self (clusters nd)"
    using skip_line_sets[OF assms(5,4,6)] by (simp add: mode_hides_def)
  have v: "skip_line self (sort (snd dk)) = mode_hides self (snd dk)"
    if "dk \<in> set (sort_key fst (node_values nd))" for dk
  proof -
    have "(fst dk, snd dk) \<in> set (node_values nd)" using that by simp
    then have "distinct (snd dk) \<and> set (snd dk) \<subseteq> set (configs self)" by (rule assms(7))
    then have "distinct (sort (snd dk))" and "set (sort (snd dk)) \<subseteq> set (configs self)"
      by simp_all
    from skip_line_sets[OF this(1) assms(4) this(2)] show ?thesis
      by (simp add: mode_hides_def)
  qed
  have m: "concat (map (\<lambda>dk.
          if skip_line self (sort (snd dk)) \<or> skip_value re self (path @ '' : '' @ fst dk)
          then [] else [value_row self (path @ '' : '' @ fst dk) (sort (snd dk))])
        (sort_key fst (node_values nd)))
      = concat (map (\<lambda>dk.
          if mode_hides self (snd dk) then []
          else [value_row self (path @ '' : '' @ fst dk) (sort (snd dk))])
        (sort_key fst (node_values nd)))"
    by (rule arg_cong[where f = concat], rule map_cong[OF refl]) (simp add: v sv)
  have f: "(if skip_line self (clusters nd) \<or> skip_value re self path then []
       else [path_row self path (clusters nd)])
      = (if mode_hides self (clusters nd) then [] else [path_row self path (clusters nd)])"
    by (simp add: p sv)
  show ?thesis
    unfolding print_differences_rows[OF assms(1)] m f ..
qed


text \<open>
  Claim C6 has no row suppressed with \<^verbatim>\<open>-v\<close>. \<^verbatim>\<open>_print_differences\<close> takes the dict
  of the values of a path for a node when one of the values reads \<^verbatim>\<open>clusters\<close>: for
  two files that read \<^verbatim>\<open>{"p": "clusters"}\<close> and \<^verbatim>\<open>{"p": "x"}\<close> the aggregator holds
  both values at \<^verbatim>\<open>p\<close>, and the report with \<^verbatim>\<open>-v\<close> has, after the header and the row
  of the path, a second row of the path with the sources of the value \<^verbatim>\<open>clusters\<close>, and
  no row for either value.
\<close>

theorem verbose_report_drops_value_rows:
  \<open>do_compare
      (json_table
        [(''{"p": "clusters"}'' @ [NL], Dict Unicode [(''p'', Uni ''clusters'')]),
         (''{"p": "x"}'' @ [NL], Dict Unicode [(''p'', Uni ''x'')])])
      3 (read_from [(''A'', ''{"p": "clusters"}'' @ [NL]),
                    (''B'', ''{"p": "x"}'' @ [NL])]) [''A'', ''B'']
    = Done [(''p'', \<lparr>clusters = [''A'', ''B''],
               vals = Some [(''clusters'', [''A'']), (''x'', [''B''])]\<rparr>)]
   \<and> print_result literal_search ((init_config [''A'', ''B''])\<lparr>verbose_flag := True\<rparr>)
        [(''p'', \<lparr>clusters = [''A'', ''B''],
               vals = Some [(''clusters'', [''A'']), (''x'', [''B''])]\<rparr>)]
    = [''PATH'' @ [TAB] @ ''VALUE'' @ [TAB] @ ''A'' @ [TAB] @ ''B'' @ [TAB]
         @ ''COMPLETE VALUE IF TRUNCATED'',
       ''p'' @ [TAB, DQ, CHR '' '', DQ, TAB] @ '' X '' @ [TAB] @ '' X '',
       ''p'' @ [TAB, DQ, CHR '' '', DQ, TAB] @ '' X '' @ [TAB] @ '' - '']
   \<and> print_result literal_search (init_config [''A'', ''B''])
        [(''p'', \<lparr>clusters = [''A'', ''B''],
               vals = Some [(''clusters'', [''A'']), (''x'', [''B''])]\<rparr>)]
    = [''PATH'' @ [TAB] @ ''VALUE'' @ [TAB] @ ''A'' @ [TAB] @ ''B'' @ [TAB]
         @ ''COMPLETE VALUE IF TRUNCATED'',
       ''p'' @ [TAB, DQ, CHR '' '', DQ, TAB] @ '' X '' @ [TAB] @ '' - '']
   \<and> print_result literal_search ((init_config [''A'', ''B''])\<lparr>same_flag := True\<rparr>)
        [(''p'', \<lparr>clusters = [''A'', ''B''],
               vals = Some [(''clusters'', [''A'']), (''x'', [''B''])]\<rparr>)]
    = [''PATH'' @ [TAB] @ ''VALUE'' @ [TAB] @ ''A'' @ [TAB] @ ''B'' @ [TAB]
         @ ''COMPLETE VALUE IF TRUNCATED'',
       ''p'' @ [TAB, DQ, CHR '' '', DQ, TAB] @ '' X '' @ [TAB] @ '' X '']\<close>
  by code_simp


text \<open>
  Claim C7, as stated, has the patterns tested on the path of a row. For the row of a
  value the string tested is the path, \<^verbatim>\<open>" : "\<close> and the value: with the include
  pattern \<^verbatim>\<open>secret\<close>, the row of the value \<^verbatim>\<open>secret\<close> at the path \<^verbatim>\<open>a : b\<close> is
  written, although the pattern is not found in the path, and it is the only row. Where a
  value reads \<^verbatim>\<open>clusters\<close> the rows of the values are not written at all: with the
  include pattern \<^verbatim>\<open>x\<close>, the row of the value \<^verbatim>\<open>x\<close> at \<^verbatim>\<open>p\<close> is missing.
\<close>

theorem pattern_filters_rows_counterexample:
  \<open>print_result literal_search
     ((init_config [''A'', ''B''])\<lparr>verbose_flag := True, include_pattern := Some ''secret''\<rparr>)
     (state_of (do_compare
        (json_table
          [(''{"a": {"b": "secret"}}'' @ [NL],
            Dict Unicode [(''a'', Dict Unicode [(''b'', Uni ''secret'')])]),
           (''{"a": {"b": "open"}}'' @ [NL],
            Dict Unicode [(''a'', Dict Unicode [(''b'', Uni ''open'')])])])
        4 (read_from [(''A'', ''{"a": {"b": "secret"}}'' @ [NL]),
                      (''B'', ''{"a": {"b": "open"}}'' @ [NL])]) [''A'', ''B'']))
   = [''PATH'' @ [TAB] @ ''VALUE'' @ [TAB] @ ''A'' @ [TAB] @ ''B'' @ [TAB]
        @ ''COMPLETE VALUE IF TRUNCATED'',
      ''a : b'' @ [TAB] @ ''secret'' @ [TAB] @ '' X '' @ [TAB] @ '' - '']
   \<and> \<not> literal_search ''secret'' ''a : b''
   \<and> print_result literal_search
     ((init_config [''A'', ''B''])\<lparr>verbose_flag := True, include_pattern := Some ''x''\<rparr>)
     (state_of (do_compare
        (json_table
          [(''{"p": "clusters"}'' @ [NL], Dict Unicode [(''p'', Uni ''clusters'')]),
           (''{"p": "x"}'' @ [NL], Dict Unicode [(''p'', Uni ''x'')])])
        3 (read_from [(''A'', ''{"p": "clusters"}'' @ [NL]),
                      (''B'', ''{"p": "x"}'' @ [NL])]) [''A'', ''B'']))
   = [''PATH'' @ [TAB] @ ''VALUE'' @ [TAB] @ ''A'' @ [TAB] @ ''B'' @ [TAB]
        @ ''COMPLETE VALUE IF TRUNCATED'']\<close>
  by code_simp


text \<open>
  Claim C7, amended. The key of a row is the path for the row of a path, and the path,
  \<^verbatim>\<open>" : "\<close> and the value for the row of a value. At a path none of whose values reads
  \<^verbatim>\<open>clusters\<close>, the rows written are, in this order, the row of the path and the rows
  of the values in sorted order, each written iff \<^verbatim>\<open>_skip_line\<close> lets its sources
  through and the patterns do not hide its key: an include pattern hides the keys in which
  it is not found, an exclude pattern those in which it is found. The display flags do not
  enter the test of the patterns, and an exclude pattern found in the key hides the row
  whatever the include pattern.
\<close>

theorem pattern_filters_rows:
  assumes "map_of (node_values nd) ''clusters'' = None"
  shows "print_differences re self path nd =
      (if skip_line self (clusters nd) \<or> pattern_hides re self path then []
       else [path_row self path (clusters nd)])
      @ concat (map (\<lambda>dk.
          if skip_line self (sort (snd dk)) \<or> pattern_hides re self (path @ '' : '' @ fst dk)
          then [] else [value_row self (path @ '' : '' @ fst dk) (sort (snd dk))])
        (sort_key fst (node_values nd)))
    \<and> pattern_hides re (self\<lparr>verbose_flag := vf, same_flag := sf\<rparr>) key
        = pattern_hides re self key
    \<and> pattern_hides re (self\<lparr>exclude_pattern := Some e\<rparr>) key
        = (re e key \<or> pattern_hides re (self\<lparr>exclude_pattern := None\<rparr>) key)"
proof -
  have 1: "print_differences re self path nd =
      (if skip_line self (clusters nd) \<or> pattern_hides re self path then []
       else [path_row self path (clusters nd)])
      @ concat (map (\<lambda>dk.
          if skip_line self (sort (snd dk)) \<or> pattern_hides re self (path @ '' : '' @ fst dk)
          then [] else [value_row self (path @ '' : '' @ fst dk) (sort (snd dk))])
        (sort_key fst (node_values nd)))"
    using print_differences_rows[OF assms, of re self path]
    by (simp only: skip_value_pattern_hides)
  have 2: "pattern_hides re (self\<lparr>verbose_flag := vf, same_flag := sf\<rparr>) key
        = pattern_hides re self key"
    by (simp add: pattern_hides_def)
  have 3: "pattern_hides re (self\<lparr>exclude_pattern := Some e\<rparr>) key
        = (re e key \<or> pattern_hides re (self\<lparr>exclude_pattern := None\<rparr>) key)"
    by (auto simp: pattern_hides_def)
  from 1 2 3 show ?thesis by blast
qed

theorem pattern_filters_rows_witness:
  "map_of (node_values \<lparr>clusters = [''A'', ''B''],
        vals = Some [(''secret'', [''A'']), (''open'', [''B''])]\<rparr>) ''clusters'' = None
   \<and> print_differences literal_search
        ((init_config [''A'', ''B''])\<lparr>verbose_flag := True, include_pattern := Some ''b'',
           exclude_pattern := Some ''secret''\<rparr>)
        ''a : b''
        \<lparr>clusters = [''A'', ''B''], vals = Some [(''secret'', [''A'']), (''open'', [''B''])]\<rparr>
      = [''a : b'' @ [TAB, DQ, CHR '' '', DQ, TAB] @ '' X '' @ [TAB] @ '' X '',
         ''a : b'' @ [TAB] @ ''open'' @ [TAB] @ '' - '' @ [TAB] @ '' X '']"
proof -
  let ?nd = "\<lparr>clusters = [''A'', ''B''],
        vals = Some [(''secret'', [''A'']), (''open'', [''B''])]\<rparr>"
  let ?c = "(init_config [''A'', ''B''])\<lparr>verbose_flag := True, include_pattern := Some ''b'',
           exclude_pattern := Some ''secret''\<rparr>"
  have h: "map_of (node_values ?nd) ''clusters'' = None" by (simp add: node_values_def)
  have rhs: "(if skip_line ?c (clusters ?nd) \<or> pattern_hides literal_search ?c ''a : b'' then []
       else [path_row ?c ''a : b'' (clusters ?nd)])
      @ concat (map (\<lambda>dk.
          if skip_line ?c (sort (snd dk))
             \<or> pattern_hides literal_search ?c (''a : b'' @ '' : '' @ fst dk)
          then [] else [value_row ?c (''a : b'' @ '' : '' @ fst dk) (sort (snd dk))])
        (sort_key fst (node_values ?nd)))
      = [''a : b'' @ [TAB, DQ, CHR '' '', DQ, TAB] @ '' X '' @ [TAB] @ '' X '',
         ''a : b'' @ [TAB] @ ''open'' @ [TAB] @ '' - '' @ [TAB] @ '' X '']"
    by code_simp
  from pattern_filters_rows[OF h, of literal_search ?c "''a : b''"]
  have "print_differences literal_search ?c ''a : b'' ?nd =
      (if skip_line ?c (clusters ?nd) \<or> pattern_hides literal_search ?c ''a : b'' then []
       else [path_row ?c ''a : b'' (clusters ?nd)])
      @ concat (map (\<lambda>dk.
          if skip_line ?c (sort (snd dk))
             \<or> pattern_hides literal_search ?c (''a : b'' @ '' : '' @ fst dk)
          then [] else [value_row ?c (''a : b'' @ '' : '' @ fst dk) (sort (snd dk))])
        (sort_key fst (node_values ?nd)))"
    by blast
  with rhs h show ?thesis by simp
qed


text \<open>
  Claim C10 has the patterns tested, for the row of every value, on the path joined with
  the value. For two files that read \<^verbatim>\<open>{"p": "clusters"}\<close> and \<^verbatim>\<open>{"p": "values"}\<close>
  the values at \<^verbatim>\<open>p\<close> are taken for a node: the list of the value \<^verbatim>\<open>values\<close> is
  handed to \<^verbatim>\<open>_spew_value_differences\<close> under the key \<^verbatim>\<open>p\<close>, so that with the exclude
  pattern \<^verbatim>\<open>values\<close>, which is found in \<^verbatim>\<open>p : values\<close>, its row is written all the
  same, as the last row of the report.
\<close>

theorem value_row_tested_on_path_alone:
  \<open>do_compare
      (json_table
        [(''{"p": "clusters"}'' @ [NL], Dict Unicode [(''p'', Uni ''clusters'')]),
         (''{"p": "values"}'' @ [NL], Dict Unicode [(''p'', Uni ''values'')])])
      3 (read_from [(''A'', ''{"p": "clusters"}'' @ [NL]),
                    (''B'', ''{"p": "values"}'' @ [NL])]) [''A'', ''B'']
    = Done [(''p'', \<lparr>clusters = [''A'', ''B''],
               vals = Some [(''clusters'', [''A'']), (''values'', [''B''])]\<rparr>)]
   \<and> literal_search ''values'' (''p'' @ '' : '' @ ''values'')
   \<and> print_result literal_search ((init_config [''A'', ''B''])\<lparr>exclude_pattern := Some ''values''\<rparr>)
        [(''p'', \<lparr>clusters = [''A'', ''B''],
               vals = Some [(''clusters'', [''A'']), (''values'', [''B''])]\<rparr>)]
    = [''PATH'' @ [TAB] @ ''VALUE'' @ [TAB] @ ''A'' @ [TAB] @ ''B'' @ [TAB]
         @ ''COMPLETE VALUE IF TRUNCATED'',
       ''p'' @ [TAB, DQ, CHR '' '', DQ, TAB] @ '' X '' @ [TAB] @ '' - '',
       [TAB] @ ''p'' @ [TAB] @ '' - '' @ [TAB] @ '' X '']\<close>
  by code_simp













end
